theory Spec2Isabelle
  imports Complex_Main "HOL-Library.Sublist" "HOL-Library.AList" "HOL-Library.Multiset"
    "HOL-Library.Char_ord" "HOL-Library.List_Lexorder"
begin

section \<open>Text primitives used by the summary parser\<close>

text \<open>
  The script \<^verbatim>\<open>analyze_experiments.py\<close> reads text artifacts line by line. A Python
  \<^verbatim>\<open>str\<close> is modelled as a \<^typ>\<open>string\<close>; each \<^typ>\<open>char\<close> stands for one code point
  below 256, which covers the ASCII artifacts the simulator writes.

  \<^verbatim>\<open>str.isspace\<close> holds, among the code points below 256, for TAB..CR (9..13), the
  separators FS..US (28..31), the blank (32), NEL (133) and NBSP (160); \<^verbatim>\<open>str.strip()\<close>
  removes such characters from both ends.
\<close>

definition isspace :: "char \<Rightarrow> bool" where
  "isspace c = (let n = (of_char c :: nat) in
     (9 \<le> n \<and> n \<le> 13) \<or> (28 \<le> n \<and> n \<le> 32) \<or> n = 133 \<or> n = 160)"

definition strip :: "string \<Rightarrow> string" where
  "strip s = rev (dropWhile isspace (rev (dropWhile isspace s)))"

text \<open>\<^verbatim>\<open>sub in s\<close>: some suffix of \<open>s\<close> starts with \<open>sub\<close>.\<close>

fun contains :: "string \<Rightarrow> string \<Rightarrow> bool" where
  "contains sub [] = (sub = [])"
| "contains sub (c # cs) = (prefix sub (c # cs) \<or> contains sub cs)"

text \<open>
  \<^verbatim>\<open>s.replace(old, new)\<close>: the non-overlapping occurrences of \<open>old\<close> are replaced from
  left to right; an empty \<open>old\<close> matches before every character and at the end.
\<close>

function str_replace :: "string \<Rightarrow> string \<Rightarrow> string \<Rightarrow> string" where
  "str_replace old new s =
     (if old = [] then new @ concat (map (\<lambda>c. c # new) s)
      else if s = [] then []
      else if prefix old s then new @ str_replace old new (drop (length old) s)
      else hd s # str_replace old new (tl s))"
  by pat_completeness auto
termination
  by (relation "measure (\<lambda>(old, new, s). length s)") auto

declare str_replace.simps [simp del]

text \<open>
  \<^verbatim>\<open>line.split(sep, 1)\<close> for a one-character separator that occurs in the line: the text
  before the first separator and the text after it.
\<close>

definition split_first :: "char \<Rightarrow> string \<Rightarrow> string \<times> string" where
  "split_first sep s = (takeWhile (\<lambda>c. c \<noteq> sep) s, drop 1 (dropWhile (\<lambda>c. c \<noteq> sep) s))"

section \<open>The summary parser (\<^verbatim>\<open>load_all_summaries\<close>, the loop over the lines)\<close>

text \<open>
  \<^verbatim>\<open>
  if ':' in line and '===' not in line:
      key, val = line.split(':', 1)
      key = key.strip()
      val = val.strip().replace('s', '').replace(' per minute', '')
      data[key] = val
  \<close>
  \<open>parse_line\<close> is the body of the loop for one line: the pair stored in \<^verbatim>\<open>data\<close>, or
  \<open>None\<close> when the line is skipped.
\<close>

definition parse_line :: "string \<Rightarrow> (string \<times> string) option" where
  "parse_line line =
     (if CHR '':'' \<in> set line \<and> \<not> contains ''==='' line then
        (case split_first CHR '':'' line of
           (key, val) \<Rightarrow>
             Some (strip key,
                   str_replace '' per minute'' [] (str_replace ''s'' [] (strip val))))
      else None)"

text \<open>
  \<^verbatim>\<open>data\<close> is a Python dict: an assignment to a key that is present replaces its value
  in place, a new key goes to the end (\<^const>\<open>AList.update\<close>).
\<close>

fun read_summary :: "(string \<times> string) list \<Rightarrow> string list \<Rightarrow> (string \<times> string) list" where
  "read_summary data [] = data"
| "read_summary data (line # rest) =
     read_summary (case parse_line line of
                     None \<Rightarrow> data
                   | Some (key, val) \<Rightarrow> AList.update key val data) rest"

text \<open>
  What it means for \<open>t\<close> to be \<open>s\<close> with the whitespace trimmed from both sides: \<open>s\<close> is
  \<open>t\<close> between two runs of whitespace, and \<open>t\<close> neither starts nor ends with whitespace.
\<close>

definition trimmed_of :: "string \<Rightarrow> string \<Rightarrow> bool" where
  "trimmed_of s t \<longleftrightarrow>
     (\<exists>ws1 ws2. s = ws1 @ t @ ws2 \<and> list_all isspace ws1 \<and> list_all isspace ws2) \<and>
     (t = [] \<or> (\<not> isspace (hd t) \<and> \<not> isspace (last t)))"

section \<open>Tables\<close>

text \<open>
  Exceptions are values. \<open>OSError\<close> and \<open>ParserError\<close> stand for what opening, decoding
  or parsing an artifact raises; they carry the text that \<^verbatim>\<open>str(e)\<close> gives.
\<close>

datatype error =
    KeyError string
  | TypeError string
  | ValueError string
  | AttributeError string
  | OSError string
  | ParserError string

fun err_text :: "error \<Rightarrow> string" where
  "err_text (KeyError k) = [CHR 0x27] @ k @ [CHR 0x27]"
| "err_text (TypeError m) = m"
| "err_text (ValueError m) = m"
| "err_text (AttributeError m) = m"
| "err_text (OSError m) = m"
| "err_text (ParserError m) = m"

text \<open>
  A cell of a pandas table holds a string, a number or the missing-value marker NaN.
  Numbers are exact rationals: the rounding of binary floating point is not modelled.
  A table has its column labels, in order, and its rows, in order; a row gives every
  label a cell, NaN outside the table's columns. The index labels of every table of the
  script are the row positions (\<^verbatim>\<open>DataFrame(list)\<close>, \<^verbatim>\<open>ignore_index=True\<close>), so rows are
  addressed by position.
\<close>

datatype cell = Str string | Num rat | NaN

fun is_Str :: "cell \<Rightarrow> bool" where
  "is_Str (Str s) = True"
| "is_Str c = False"

fun is_Num :: "cell \<Rightarrow> bool" where
  "is_Num (Num q) = True"
| "is_Num c = False"

record dataframe =
  columns :: "string list"
  rows :: "(string \<Rightarrow> cell) list"

text \<open>\<^verbatim>\<open>pd.DataFrame()\<close>: no columns, no rows.\<close>

definition empty_frame :: dataframe where
  "empty_frame = \<lparr>columns = [], rows = []\<rparr>"

text \<open>\<^verbatim>\<open>df[col]\<close> raises KeyError for a label that is not a column.\<close>

definition getitem :: "dataframe \<Rightarrow> string \<Rightarrow> error + cell list" where
  "getitem df col =
     (if col \<in> set (columns df) then Inr (map (\<lambda>r. r col) (rows df)) else Inl (KeyError col))"

text \<open>
  \<^verbatim>\<open>df[col] = values\<close>, with one value per row: an existing column is overwritten in
  place, a new one is appended to the columns.
\<close>

definition setitem :: "dataframe \<Rightarrow> string \<Rightarrow> cell list \<Rightarrow> error + dataframe" where
  "setitem df col vals =
     (if length vals = length (rows df) then
        Inr \<lparr>columns = (if col \<in> set (columns df) then columns df else columns df @ [col]),
             rows = map2 (\<lambda>r v. r(col := v)) (rows df) vals\<rparr>
      else Inl (ValueError ''Length of values does not match length of index''))"

text \<open>The labels of \<open>ks\<close> that \<open>acc\<close> lacks are appended to it, in order of first appearance.\<close>

fun union_keys :: "string list \<Rightarrow> string list \<Rightarrow> string list" where
  "union_keys acc [] = acc"
| "union_keys acc (k # ks) = union_keys (if k \<in> set acc then acc else acc @ [k]) ks"

text \<open>
  \<^verbatim>\<open>pd.DataFrame(summaries)\<close> for a list of dicts of strings: the columns are the keys in
  order of first appearance, a key that a dict lacks is NaN in its row.
\<close>

definition row_of_dict :: "(string \<times> string) list \<Rightarrow> string \<Rightarrow> cell" where
  "row_of_dict d c = (case map_of d c of Some v \<Rightarrow> Str v | None \<Rightarrow> NaN)"

definition DataFrame :: "(string \<times> string) list list \<Rightarrow> dataframe" where
  "DataFrame summaries =
     \<lparr>columns = union_keys [] (concat (map (map fst) summaries)),
      rows = map row_of_dict summaries\<rparr>"

text \<open>
  \<^verbatim>\<open>pd.concat(dfs, ignore_index=True)\<close>: the union of the columns in order of first
  appearance; the rows of each table in order, NaN in the columns their table lacks.
\<close>

definition fill_row :: "string list \<Rightarrow> (string \<Rightarrow> cell) \<Rightarrow> string \<Rightarrow> cell" where
  "fill_row cols r c = (if c \<in> set cols then r c else NaN)"

definition concat_frames :: "dataframe list \<Rightarrow> dataframe" where
  "concat_frames dfs =
     \<lparr>columns = union_keys [] (concat (map columns dfs)),
      rows = concat (map (\<lambda>d. map (fill_row (columns d)) (rows d)) dfs)\<rparr>"

section \<open>Numeric coercion\<close>

text \<open>
  \<^verbatim>\<open>pd.to_numeric(series, errors='coerce')\<close> works cell by cell: a number stays, NaN stays,
  a string becomes the number it denotes, or NaN when it denotes none. The strings the
  model reads as numbers are the plain decimal literals: an optional sign, digits, and
  optionally a point and digits, with at least one digit. (pandas also reads exponents
  and the words for infinity; no statement below depends on such strings.)
\<close>

definition isdigit :: "char \<Rightarrow> bool" where
  "isdigit c = (48 \<le> (of_char c :: nat) \<and> (of_char c :: nat) \<le> 57)"

definition digits_value :: "string \<Rightarrow> nat" where
  "digits_value ds = foldl (\<lambda>n c. 10 * n + ((of_char c :: nat) - 48)) 0 ds"

definition parse_unsigned :: "string \<Rightarrow> rat option" where
  "parse_unsigned s =
     (let ip = takeWhile isdigit s; rest = dropWhile isdigit s in
      case rest of
        [] \<Rightarrow> if ip = [] then None else Some (of_nat (digits_value ip))
      | c # fp \<Rightarrow>
          if c = CHR ''.'' \<and> list_all isdigit fp \<and> (ip \<noteq> [] \<or> fp \<noteq> [])
          then Some (of_nat (digits_value (ip @ fp)) / 10 ^ length fp)
          else None)"

definition parse_number :: "string \<Rightarrow> rat option" where
  "parse_number s =
     (case s of
        [] \<Rightarrow> None
      | c # r \<Rightarrow>
          if c = CHR ''-'' then map_option uminus (parse_unsigned r)
          else if c = CHR ''+'' then parse_unsigned r
          else parse_unsigned s)"

fun to_numeric :: "cell \<Rightarrow> cell" where
  "to_numeric (Str s) = (case parse_number s of Some q \<Rightarrow> Num q | None \<Rightarrow> NaN)"
| "to_numeric (Num q) = Num q"
| "to_numeric NaN = NaN"

text \<open>
  \<^verbatim>\<open>series.str.replace(old, new)\<close>: the \<^verbatim>\<open>.str\<close> accessor exists only for a column of
  strings (one that holds a string), and raises AttributeError otherwise; a cell that is
  not a string becomes NaN.
\<close>

definition str_accessor_replace :: "string \<Rightarrow> string \<Rightarrow> cell list \<Rightarrow> error + cell list" where
  "str_accessor_replace old new col =
     (if list_ex is_Str col then
        Inr (map (\<lambda>c. case c of Str s \<Rightarrow> Str (str_replace old new s) | _ \<Rightarrow> NaN) col)
      else Inl (AttributeError ''Can only use .str accessor with string values''))"

section \<open>\<^verbatim>\<open>load_all_summaries\<close>\<close>

text \<open>
  The loader gets the artifacts that the glob \<^verbatim>\<open>*_summary.txt\<close> yields, in the order
  it yields them: each is a path with what reading it gives, its lines or the exception
  that \<^verbatim>\<open>open\<close> or the iteration over the lines raises. The loop has no handler, so
  the first exception ends the loader.
  \<^verbatim>\<open>
  summaries = []
  for f in DATA_DIR.glob("*_summary.txt"):
      data = {}
      with open(f, 'r') as fp:
          for line in fp: ...
      if data:
          summaries.append(data)
  \<close>
\<close>

fun collect_summaries ::
  "(string \<times> string) list list \<Rightarrow> (string \<times> (error + string list)) list
     \<Rightarrow> error + (string \<times> string) list list" where
  "collect_summaries summaries [] = Inr summaries"
| "collect_summaries summaries ((f, Inl e) # fs) = Inl e"
| "collect_summaries summaries ((f, Inr lines) # fs) =
     (let data = read_summary [] lines in
      collect_summaries (if data \<noteq> [] then summaries @ [data] else summaries) fs)"

text \<open>
  \<^verbatim>\<open>
  for col in ['Initial Boid Count', 'Total Duration', 'Total Kills', 'Capture Rate']:
      if col in df.columns:
          df[col] = pd.to_numeric(df[col], errors='coerce')
  \<close>
\<close>

fun coerce_columns :: "string list \<Rightarrow> dataframe \<Rightarrow> error + dataframe" where
  "coerce_columns [] df = Inr df"
| "coerce_columns (col # cols) df =
     (if col \<in> set (columns df) then
        (case getitem df col of
           Inl e \<Rightarrow> Inl e
         | Inr s \<Rightarrow>
             (case setitem df col (map to_numeric s) of
                Inl e \<Rightarrow> Inl e
              | Inr df' \<Rightarrow> coerce_columns cols df'))
      else coerce_columns cols df)"

definition numeric_columns :: "string list" where
  "numeric_columns = [''Initial Boid Count'', ''Total Duration'', ''Total Kills'', ''Capture Rate'']"

text \<open>
  \<^verbatim>\<open>
  if 'First Kill Time' in df.columns:
      df['First Kill Time'] = pd.to_numeric(
          df['First Kill Time'].str.replace('N/A', ''), errors='coerce')
  \<close>
\<close>

definition coerce_first_kill_time :: "dataframe \<Rightarrow> error + dataframe" where
  "coerce_first_kill_time df =
     (if ''First Kill Time'' \<in> set (columns df) then
        (case getitem df ''First Kill Time'' of
           Inl e \<Rightarrow> Inl e
         | Inr s \<Rightarrow>
             (case str_accessor_replace ''N/A'' [] s of
                Inl e \<Rightarrow> Inl e
              | Inr s' \<Rightarrow> setitem df ''First Kill Time'' (map to_numeric s')))
      else Inr df)"

definition load_all_summaries :: "(string \<times> (error + string list)) list \<Rightarrow> error + dataframe" where
  "load_all_summaries files =
     (case collect_summaries [] files of
        Inl e \<Rightarrow> Inl e
      | Inr summaries \<Rightarrow>
          (case coerce_columns numeric_columns (DataFrame summaries) of
             Inl e \<Rightarrow> Inl e
           | Inr df \<Rightarrow> coerce_first_kill_time df))"

section \<open>\<^verbatim>\<open>load_all_captures\<close> and \<^verbatim>\<open>load_all_snapshots\<close>\<close>

text \<open>
  The CSV loaders get the artifacts of their glob, each a path with what
  \<^verbatim>\<open>pd.read_csv\<close> gives for it: a table, or the exception it raises. The handler
  prints one line per failure and the loop goes on.
  \<^verbatim>\<open>
  dfs = []
  for f in DATA_DIR.glob("*_captures.csv"):
      try:
          df = pd.read_csv(f)
          dfs.append(df)
      except Exception as e:
          print(f"Error loading {f}: {e}")
  if dfs:
      return pd.concat(dfs, ignore_index=True)
  return pd.DataFrame()
  \<close>
  The result is what was printed and the table returned.
\<close>

fun read_csv_files ::
  "string list \<Rightarrow> dataframe list \<Rightarrow> (string \<times> (error + dataframe)) list
     \<Rightarrow> string list \<times> dataframe list" where
  "read_csv_files out dfs [] = (out, dfs)"
| "read_csv_files out dfs ((f, Inr df) # fs) = read_csv_files out (dfs @ [df]) fs"
| "read_csv_files out dfs ((f, Inl e) # fs) =
     read_csv_files (out @ [''Error loading '' @ f @ '': '' @ err_text e]) dfs fs"

definition load_all_captures ::
  "(string \<times> (error + dataframe)) list \<Rightarrow> string list \<times> dataframe" where
  "load_all_captures files =
     (case read_csv_files [] [] files of
        (out, dfs) \<Rightarrow> (out, if dfs \<noteq> [] then concat_frames dfs else empty_frame))"

definition load_all_snapshots ::
  "(string \<times> (error + dataframe)) list \<Rightarrow> string list \<times> dataframe" where
  "load_all_snapshots files =
     (case read_csv_files [] [] files of
        (out, dfs) \<Rightarrow> (out, if dfs \<noteq> [] then concat_frames dfs else empty_frame))"

section \<open>\<^verbatim>\<open>plot_confusion_effect\<close>: the delta column and the trend line\<close>

text \<open>
  \<^verbatim>\<open>captures.groupby('condition')['time_sec'].diff()\<close>: every row gets its value minus
  the value of the previous row of its group, and NaN when it is the first row of its
  group. Rows whose key is NaN belong to no group and get NaN. The pass over the rows
  keeps, for every key, the value of the last row seen with that key. A difference with
  a NaN operand is NaN; on a column of strings the subtraction raises TypeError.
\<close>

fun cell_sub :: "cell \<Rightarrow> cell \<Rightarrow> cell" where
  "cell_sub (Num a) (Num b) = Num (a - b)"
| "cell_sub x y = NaN"

fun group_diff :: "(cell \<Rightarrow> cell option) \<Rightarrow> (cell \<times> cell) list \<Rightarrow> cell list" where
  "group_diff prev [] = []"
| "group_diff prev ((k, v) # kvs) =
     (if k = NaN then NaN # group_diff prev kvs
      else (case prev k of None \<Rightarrow> NaN | Some p \<Rightarrow> cell_sub v p)
             # group_diff (prev(k \<mapsto> v)) kvs)"

definition groupby_diff :: "dataframe \<Rightarrow> string \<Rightarrow> string \<Rightarrow> error + cell list" where
  "groupby_diff df by col =
     (case getitem df by of
        Inl e \<Rightarrow> Inl e
      | Inr ks \<Rightarrow>
          (case getitem df col of
             Inl e \<Rightarrow> Inl e
           | Inr vs \<Rightarrow>
               if list_ex is_Str vs
               then Inl (TypeError ''unsupported operand type(s) for -'')
               else Inr (group_diff Map.empty (zip ks vs))))"

text \<open>\<^verbatim>\<open>df.dropna(subset=[col])\<close>: a new table with the rows whose cell in \<open>col\<close> is not NaN.\<close>

definition dropna :: "dataframe \<Rightarrow> string \<Rightarrow> error + dataframe" where
  "dropna df col =
     (if col \<in> set (columns df)
      then Inr \<lparr>columns = columns df, rows = filter (\<lambda>r. r col \<noteq> NaN) (rows df)\<rparr>
      else Inl (KeyError col))"

text \<open>
  \<^verbatim>\<open>
  if len(valid) > 2:
      z = np.polyfit(valid['boids_in_view'], valid['time_diff'], 1)
      ...
  \<close>
  \<^verbatim>\<open>np.polyfit(x, y, 1)\<close> is the library's floating-point least-squares fit of a line;
  it is a parameter of the model, given the two columns and returning the coefficients
  (slope and intercept) or raising.
\<close>

definition trend_line ::
  "(cell list \<Rightarrow> cell list \<Rightarrow> error + 'z) \<Rightarrow> dataframe \<Rightarrow> error + 'z option" where
  "trend_line polyfit valid =
     (if length (rows valid) > 2 then
        (case getitem valid ''boids_in_view'' of
           Inl e \<Rightarrow> Inl e
         | Inr x \<Rightarrow>
             (case getitem valid ''time_diff'' of
                Inl e \<Rightarrow> Inl e
              | Inr y \<Rightarrow>
                  (case polyfit x y of
                     Inl e \<Rightarrow> Inl e
                   | Inr z \<Rightarrow> Inr (Some z))))
      else Inr None)"

text \<open>
  What the function draws: the data of the histogram, the points of the scatter plot
  and the trend line, when there is one.
\<close>

record 'z confusion_plot =
  hist_data :: "cell list"
  scatter_x :: "cell list"
  scatter_y :: "cell list"
  trend :: "'z option"

text \<open>
  Tables are mutable objects, so the function runs on a store of tables: a list, in
  which a reference is a position and a new object goes to the end. The argument
  \<open>captures\<close> is the reference the caller holds.
  \<^verbatim>\<open>
  captures = captures.copy()
  captures['time_diff'] = captures.groupby('condition')['time_sec'].diff()
  ... captures['boids_in_view'] ...
  valid = captures.dropna(subset=['time_diff'])
  ... valid['boids_in_view'], valid['time_diff'] ...
  \<close>
  The local name is rebound to the copy, the object at position \<open>length h\<close>; the column
  assignment updates that object in place. A reference outside the store denotes no
  object, and nothing runs.
\<close>

definition plot_confusion_effect ::
  "(cell list \<Rightarrow> cell list \<Rightarrow> error + 'z) \<Rightarrow> nat \<Rightarrow> dataframe list
     \<Rightarrow> (error + 'z confusion_plot) \<times> dataframe list" where
  "plot_confusion_effect polyfit captures h =
     (if captures < length h then
        (let h1 = h @ [h ! captures]; c = length h in
         case groupby_diff (h1 ! c) ''condition'' ''time_sec'' of
           Inl e \<Rightarrow> (Inl e, h1)
         | Inr d \<Rightarrow>
             (case setitem (h1 ! c) ''time_diff'' d of
                Inl e \<Rightarrow> (Inl e, h1)
              | Inr df \<Rightarrow>
                  (let h2 = h1[c := df] in
                   case getitem (h2 ! c) ''boids_in_view'' of
                     Inl e \<Rightarrow> (Inl e, h2)
                   | Inr biv \<Rightarrow>
                       (case dropna (h2 ! c) ''time_diff'' of
                          Inl e \<Rightarrow> (Inl e, h2)
                        | Inr valid \<Rightarrow>
                            (let h3 = h2 @ [valid] in
                             case getitem valid ''boids_in_view'' of
                               Inl e \<Rightarrow> (Inl e, h3)
                             | Inr x \<Rightarrow>
                                 (case getitem valid ''time_diff'' of
                                    Inl e \<Rightarrow> (Inl e, h3)
                                  | Inr y \<Rightarrow>
                                      (case trend_line polyfit valid of
                                         Inl e \<Rightarrow> (Inl e, h3)
                                       | Inr t \<Rightarrow>
                                           (Inr \<lparr>hist_data = biv, scatter_x = x,
                                                 scatter_y = y, trend = t\<rparr>, h3))))))))
      else (Inl (ValueError ''no such object''), h))"

section \<open>\<^verbatim>\<open>write_analysis_report\<close>: the results table and the extremal conditions\<close>

text \<open>
  \<^verbatim>\<open>df.sort_values(by)\<close>: KeyError without the column; the rows whose cell is NaN go
  last, in their order; the others are sorted ascending, strings by code points and
  numbers by value, and a column that mixes both raises TypeError. (pandas does not
  promise the order of rows with equal keys; the model keeps their order.)
\<close>

fun cell_str :: "cell \<Rightarrow> string" where
  "cell_str (Str s) = s"
| "cell_str c = []"

fun cell_num :: "cell \<Rightarrow> rat" where
  "cell_num (Num q) = q"
| "cell_num c = 0"

definition sort_values :: "dataframe \<Rightarrow> string \<Rightarrow> error + dataframe" where
  "sort_values df by =
     (if by \<notin> set (columns df) then Inl (KeyError by)
      else
        (let present = filter (\<lambda>r. r by \<noteq> NaN) (rows df);
             missing = filter (\<lambda>r. r by = NaN) (rows df)
         in if list_all (\<lambda>r. is_Str (r by)) present
            then Inr \<lparr>columns = columns df,
                      rows = sort_key (\<lambda>r. cell_str (r by)) present @ missing\<rparr>
            else if list_all (\<lambda>r. is_Num (r by)) present
            then Inr \<lparr>columns = columns df,
                      rows = sort_key (\<lambda>r. cell_num (r by)) present @ missing\<rparr>
            else Inl (TypeError ''not supported between instances of str and float'')))"

text \<open>
  \<^verbatim>\<open>
  for _, row in df.iterrows():
      f.write(f"| {row['Condition']} | {row['Initial Boid Count']:.0f} | "
              f"{row['First Kill Time']:.2f} | {row['Capture Rate']:.2f} | "
              f"{row['Total Duration']:.2f} |\n")
  \<close>
  A line of the results table is modelled by the five cells it prints (the rendering
  of a number as decimal text is left to the library). \<^verbatim>\<open>row[label]\<close> raises KeyError
  without the column; the format code \<^verbatim>\<open>f\<close> raises ValueError for a string.
\<close>

definition row_get :: "string list \<Rightarrow> (string \<Rightarrow> cell) \<Rightarrow> string \<Rightarrow> error + cell" where
  "row_get cols r c = (if c \<in> set cols then Inr (r c) else Inl (KeyError c))"

definition format_f :: "error + cell \<Rightarrow> error + cell" where
  "format_f x =
     (case x of
        Inl e \<Rightarrow> Inl e
      | Inr (Str s) \<Rightarrow> Inl (ValueError ''Unknown format code f for object of type str'')
      | Inr c \<Rightarrow> Inr c)"

record table_line =
  line_condition :: cell
  line_count :: cell
  line_first_kill :: cell
  line_rate :: cell
  line_duration :: cell

definition write_row :: "string list \<Rightarrow> (string \<Rightarrow> cell) \<Rightarrow> error + table_line" where
  "write_row cols r =
     (case row_get cols r ''Condition'' of Inl e \<Rightarrow> Inl e | Inr c \<Rightarrow>
      case format_f (row_get cols r ''Initial Boid Count'') of Inl e \<Rightarrow> Inl e | Inr n \<Rightarrow>
      case format_f (row_get cols r ''First Kill Time'') of Inl e \<Rightarrow> Inl e | Inr k \<Rightarrow>
      case format_f (row_get cols r ''Capture Rate'') of Inl e \<Rightarrow> Inl e | Inr q \<Rightarrow>
      case format_f (row_get cols r ''Total Duration'') of Inl e \<Rightarrow> Inl e | Inr d \<Rightarrow>
        Inr \<lparr>line_condition = c, line_count = n, line_first_kill = k,
             line_rate = q, line_duration = d\<rparr>)"

fun write_rows :: "string list \<Rightarrow> (string \<Rightarrow> cell) list \<Rightarrow> error + table_line list" where
  "write_rows cols [] = Inr []"
| "write_rows cols (r # rs) =
     (case write_row cols r of
        Inl e \<Rightarrow> Inl e
      | Inr l \<Rightarrow> (case write_rows cols rs of Inl e \<Rightarrow> Inl e | Inr ls \<Rightarrow> Inr (l # ls)))"

text \<open>\<^verbatim>\<open>df = summaries.sort_values('Condition')\<close> and the loop over its rows.\<close>

definition report_table :: "dataframe \<Rightarrow> error + table_line list" where
  "report_table summaries =
     (case sort_values summaries ''Condition'' of
        Inl e \<Rightarrow> Inl e
      | Inr df \<Rightarrow> write_rows (columns df) (rows df))"







section \<open>Notions used to state the properties\<close>

text \<open>
  What an artifact records for a key: the text after the first colon, trimmed, of the
  last key/value line with that key.
\<close>

definition raw_pair :: "string \<Rightarrow> (string \<times> string) option" where
  "raw_pair line =
     (if CHR '':'' \<in> set line \<and> \<not> contains ''==='' line
      then Some (strip (fst (split_first CHR '':'' line)),
                 strip (snd (split_first CHR '':'' line)))
      else None)"

definition recorded :: "string list \<Rightarrow> string \<Rightarrow> string option" where
  "recorded lines key = map_of (rev (List.map_filter raw_pair lines)) key"

text \<open>The value stripping of the parser, applied to a trimmed value.\<close>

definition stored_text :: "string \<Rightarrow> string" where
  "stored_text w = str_replace '' per minute'' [] (str_replace ''s'' [] w)"

text \<open>
  The run records of a list of artifacts: the dicts of the artifacts that give at least
  one key/value pair, in order.
\<close>

definition has_pairs :: "string \<times> (error + string list) \<Rightarrow> bool" where
  "has_pairs f = (case snd f of Inl e \<Rightarrow> False | Inr lines \<Rightarrow> read_summary [] lines \<noteq> [])"

definition run_records :: "(string \<times> (error + string list)) list \<Rightarrow> (string \<times> string) list list" where
  "run_records files = map (\<lambda>f. read_summary [] (projr (snd f))) (filter has_pairs files)"

text \<open>What the two coercion steps make of a cell of the column \<open>c\<close>.\<close>

definition coerce_cell :: "string \<Rightarrow> cell \<Rightarrow> cell" where
  "coerce_cell c x =
     (if c \<in> set numeric_columns then to_numeric x
      else if c = ''First Kill Time''
      then to_numeric (case x of Str s \<Rightarrow> Str (str_replace ''N/A'' [] s) | _ \<Rightarrow> NaN)
      else x)"

text \<open>
  The successive differences of a list of values: nothing for the first, and for every
  later value the value minus the one before it.
\<close>

definition successive_diffs :: "cell list \<Rightarrow> cell list" where
  "successive_diffs ts =
     (case ts of [] \<Rightarrow> [] | t # ts' \<Rightarrow> NaN # map2 cell_sub ts' (t # ts'))"

text \<open>The cells of column \<open>col\<close> in the rows whose condition is \<open>c\<close>, in row order.\<close>

definition group_cells :: "cell list \<Rightarrow> cell \<Rightarrow> cell list \<Rightarrow> cell list" where
  "group_cells ks c vs = map snd (filter (\<lambda>kv. fst kv = c) (zip ks vs))"

text \<open>The columns the results table prints, and the line printed for a row.\<close>

definition report_columns :: "string list" where
  "report_columns =
     [''Condition'', ''Initial Boid Count'', ''First Kill Time'', ''Capture Rate'',
      ''Total Duration'']"

definition line_of_row :: "(string \<Rightarrow> cell) \<Rightarrow> table_line" where
  "line_of_row r =
     \<lparr>line_condition = r ''Condition'', line_count = r ''Initial Boid Count'',
      line_first_kill = r ''First Kill Time'', line_rate = r ''Capture Rate'',
      line_duration = r ''Total Duration''\<rparr>"

text \<open>The row that the loader makes of a run record.\<close>

definition row_of_record :: "(string \<times> string) list \<Rightarrow> string \<Rightarrow> cell" where
  "row_of_record d c = coerce_cell c (row_of_dict d c)"

text \<open>
  Ascending order of condition labels, by code points, with the missing labels last.
\<close>

definition label_le :: "cell \<Rightarrow> cell \<Rightarrow> bool" where
  "label_le a b \<longleftrightarrow> b = NaN \<or> (a \<noteq> NaN \<and> cell_str a \<le> cell_str b)"

section \<open>Example inputs\<close>

text \<open>A row given by its cells; every other label is NaN.\<close>

definition mk_row :: "(string \<times> cell) list \<Rightarrow> string \<Rightarrow> cell" where
  "mk_row kvs c = (case map_of kvs c of Some v \<Rightarrow> v | None \<Rightarrow> NaN)"

text \<open>
  A capture table with two conditions whose rows interleave; condition A1 has the
  times 2.0, 5.0 and 9.0.
\<close>

definition example_captures :: dataframe where
  "example_captures =
     \<lparr>columns = [''condition'', ''time_sec'', ''kill_number'', ''boids_in_view''],
      rows = [mk_row [(''condition'', Str ''A1''), (''time_sec'', Num 2),
                      (''kill_number'', Num 1), (''boids_in_view'', Num 7)],
              mk_row [(''condition'', Str ''B1''), (''time_sec'', Num 1),
                      (''kill_number'', Num 1), (''boids_in_view'', Num 4)],
              mk_row [(''condition'', Str ''A1''), (''time_sec'', Num 5),
                      (''kill_number'', Num 2), (''boids_in_view'', Num 5)],
              mk_row [(''condition'', Str ''A1''), (''time_sec'', Num 9),
                      (''kill_number'', Num 3), (''boids_in_view'', Num 6)]]\<rparr>"

text \<open>A stand-in for the fit that returns the two columns it was given.\<close>

definition example_polyfit :: "cell list \<Rightarrow> cell list \<Rightarrow> error + (cell list \<times> cell list)" where
  "example_polyfit x y = Inr (x, y)"

text \<open>The same table with a second row for condition B1: three rows have a delta.\<close>

definition example_captures_five :: dataframe where
  "example_captures_five =
     \<lparr>columns = columns example_captures,
      rows = rows example_captures @
             [mk_row [(''condition'', Str ''B1''), (''time_sec'', Num 4),
                      (''kill_number'', Num 2), (''boids_in_view'', Num 3)]]\<rparr>"

text \<open>
  Two summary artifacts: one without any key/value line, and one for condition A1 that
  records a duration with its unit, a rate with its unit and no first kill.
\<close>

definition example_summary_lines :: "string list" where
  "example_summary_lines =
     map (\<lambda>l. l @ [CHR 0x0A])
       [''=== Experiment: A1 ==='', ''Condition: A1'', ''Initial Boid Count: 30'',
        ''First Kill Time: N/A'', ''Capture Rate: 3.5 per minute'', ''Total Duration: 42.0s'']"

definition example_files :: "(string \<times> (error + string list)) list" where
  "example_files =
     [(''notes_summary.txt'', Inr [''no pairs here'' @ [CHR 0x0A]]),
      (''A1_summary.txt'', Inr example_summary_lines)]"

text \<open>
  Three summary artifacts in an order that is not the sorted one: condition B1, an
  artifact without pairs, and condition A1.
\<close>

definition example_lines_b1 :: "string list" where
  "example_lines_b1 =
     map (\<lambda>l. l @ [CHR 0x0A])
       [''Condition: B1'', ''Initial Boid Count: 30'', ''First Kill Time: 4.5s'',
        ''Capture Rate: 2.0 per minute'', ''Total Duration: 60.0s'']"

definition example_run_files :: "(string \<times> (error + string list)) list" where
  "example_run_files =
     [(''B1_summary.txt'', Inr example_lines_b1),
      (''notes_summary.txt'', Inr [''no pairs here'' @ [CHR 0x0A]]),
      (''A1_summary.txt'', Inr example_summary_lines)]"




section \<open>Properties of the text primitives\<close>

lemma str_replace_Nil: "old \<noteq> [] \<Longrightarrow> str_replace old new [] = []"
  by (simp add: str_replace.simps)

lemma str_replace_hit:
  "old \<noteq> [] \<Longrightarrow> prefix old (c # cs) \<Longrightarrow>
   str_replace old new (c # cs) = new @ str_replace old new (drop (length old) (c # cs))"
  by (subst str_replace.simps) simp

lemma str_replace_miss:
  "old \<noteq> [] \<Longrightarrow> \<not> prefix old (c # cs) \<Longrightarrow>
   str_replace old new (c # cs) = c # str_replace old new cs"
  by (subst str_replace.simps) simp

lemmas str_replace_eval = str_replace_Nil str_replace_hit str_replace_miss

lemmas text_eval = strip_def isspace_def split_first_def str_replace_eval

lemma contains_iff: "contains sub s \<longleftrightarrow> (\<exists>p q. s = p @ sub @ q)"
proof (induction s)
  case Nil
  show ?case by auto
next
  case (Cons c cs)
  show ?case
  proof
    assume "contains sub (c # cs)"
    then consider "prefix sub (c # cs)" | "contains sub cs" by auto
    then show "\<exists>p q. c # cs = p @ sub @ q"
    proof cases
      case 1
      then obtain q where "c # cs = sub @ q" by (auto simp: prefix_def)
      then have "c # cs = [] @ sub @ q" by simp
      then show ?thesis by blast
    next
      case 2
      with Cons.IH obtain p q where "cs = p @ sub @ q" by blast
      then have "c # cs = (c # p) @ sub @ q" by simp
      then show ?thesis by blast
    qed
  next
    assume "\<exists>p q. c # cs = p @ sub @ q"
    then obtain p q where pq: "c # cs = p @ sub @ q" by blast
    show "contains sub (c # cs)"
    proof (cases p)
      case Nil
      with pq have "prefix sub (c # cs)" by (simp add: prefix_def)
      then show ?thesis by simp
    next
      case (Cons a p')
      with pq have "cs = p' @ sub @ q" by simp
      with Cons.IH have "contains sub cs" by blast
      then show ?thesis by simp
    qed
  qed
qed

lemma split_first_decomp:
  assumes "sep \<in> set s"
  shows "s = fst (split_first sep s) @ [sep] @ snd (split_first sep s)"
    and "sep \<notin> set (fst (split_first sep s))"
proof -
  let ?P = "\<lambda>c. c \<noteq> sep"
  from assms have "dropWhile ?P s \<noteq> []" by simp
  moreover have "dropWhile ?P s \<noteq> [] \<Longrightarrow> hd (dropWhile ?P s) = sep"
    using hd_dropWhile [of ?P s] by simp
  ultimately have "dropWhile ?P s = sep # drop 1 (dropWhile ?P s)"
    by (cases "dropWhile ?P s") auto
  then have "takeWhile ?P s @ [sep] @ drop 1 (dropWhile ?P s) = takeWhile ?P s @ dropWhile ?P s"
    by simp
  then show "s = fst (split_first sep s) @ [sep] @ snd (split_first sep s)"
    by (simp add: split_first_def)
  show "sep \<notin> set (fst (split_first sep s))"
    by (auto simp: split_first_def dest: set_takeWhileD)
qed

lemma dropWhile_decomp:
  "\<exists>ws. s = ws @ dropWhile P s \<and> list_all P ws"
proof -
  have "s = takeWhile P s @ dropWhile P s" by simp
  moreover have "list_all P (takeWhile P s)"
    by (auto simp: list_all_iff dest: set_takeWhileD)
  ultimately show ?thesis by blast
qed

lemma strip_trimmed: "trimmed_of s (strip s)"
proof -
  let ?a = "dropWhile isspace s"
  let ?b = "dropWhile isspace (rev ?a)"
  obtain ws1 where ws1: "s = ws1 @ ?a" "list_all isspace ws1"
    using dropWhile_decomp [of s isspace] by blast
  obtain ws2 where ws2: "rev ?a = ws2 @ ?b" "list_all isspace ws2"
    using dropWhile_decomp [of "rev ?a" isspace] by blast
  from ws2(1) have "rev (rev ?a) = rev (ws2 @ ?b)" by simp
  then have a: "?a = strip s @ rev ws2" by (simp add: strip_def)
  with ws1 have "s = ws1 @ strip s @ rev ws2" by simp
  moreover from ws2(2) have "list_all isspace (rev ws2)" by (simp add: list_all_iff)
  moreover have "strip s = [] \<or> (\<not> isspace (hd (strip s)) \<and> \<not> isspace (last (strip s)))"
  proof (cases "strip s = []")
    case True
    then show ?thesis by simp
  next
    case False
    then have b: "?b \<noteq> []" by (simp add: strip_def)
    then have "\<not> isspace (hd ?b)" using hd_dropWhile [of isspace "rev ?a"] by simp
    with b have l: "\<not> isspace (last (strip s))" by (simp add: strip_def last_rev)
    from a False have "hd ?a = hd (strip s)" by (metis hd_append2)
    moreover from a False have "?a \<noteq> []" by auto
    then have "\<not> isspace (hd ?a)" using hd_dropWhile [of isspace s] by simp
    ultimately show ?thesis using l by simp
  qed
  ultimately show ?thesis using ws1(2) unfolding trimmed_of_def by blast
qed

section \<open>C2: which lines are key/value pairs\<close>

text \<open>
  Claim C2. A line of a summary artifact is read as a key/value pair exactly when it
  contains a colon and does not contain the substring \<^verbatim>\<open>===\<close>. A line that is read is
  split at its first colon only: the text before that colon holds no colon, the key is
  that text with the whitespace trimmed, and the value is the text after the colon with
  the whitespace trimmed (and then the unit markers removed). So a separator line
  containing \<^verbatim>\<open>===\<close> never gives a key, also when it contains a colon.
\<close>

theorem parse_line_key_value:
  "(parse_line l \<noteq> None) = (CHR '':'' \<in> set l \<and> \<not> (\<exists>p q. l = p @ ''==='' @ q))
   \<and> (\<forall>k v. parse_line l = Some (k, v) \<longrightarrow>
        (\<exists>a b w. l = a @ '':'' @ b \<and> CHR '':'' \<notin> set a \<and> trimmed_of a k \<and> trimmed_of b w
           \<and> v = str_replace '' per minute'' [] (str_replace ''s'' [] w)))"
proof (intro conjI allI impI)
  show "(parse_line l \<noteq> None) = (CHR '':'' \<in> set l \<and> \<not> (\<exists>p q. l = p @ ''==='' @ q))"
    by (simp add: parse_line_def contains_iff split: prod.splits)
next
  fix k v
  assume kv: "parse_line l = Some (k, v)"
  then have colon: "CHR '':'' \<in> set l"
    by (simp add: parse_line_def split: if_splits)
  let ?a = "fst (split_first CHR '':'' l)"
  let ?b = "snd (split_first CHR '':'' l)"
  from kv colon have k: "k = strip ?a"
    and v: "v = str_replace '' per minute'' [] (str_replace ''s'' [] (strip ?b))"
    by (auto simp: parse_line_def split: if_splits prod.splits)
  have "l = ?a @ '':'' @ ?b" and "CHR '':'' \<notin> set ?a"
    using split_first_decomp [OF colon] by simp_all
  moreover have "trimmed_of ?a k" "trimmed_of ?b (strip ?b)"
    using k by (simp_all add: strip_trimmed)
  ultimately show "\<exists>a b w. l = a @ '':'' @ b \<and> CHR '':'' \<notin> set a \<and> trimmed_of a k
      \<and> trimmed_of b w \<and> v = str_replace '' per minute'' [] (str_replace ''s'' [] w)"
    using v by blast
qed

theorem parse_line_key_value_witness:
  "parse_line ''Total Duration: 42.0s'' = Some (''Total Duration'', ''42.0'')
   \<and> (\<exists>a b w. ''Total Duration: 42.0s'' = a @ '':'' @ b \<and> CHR '':'' \<notin> set a
        \<and> trimmed_of a ''Total Duration'' \<and> trimmed_of b w
        \<and> ''42.0'' = str_replace '' per minute'' [] (str_replace ''s'' [] w))
   \<and> CHR '':'' \<in> set ''=== Run: A1 ===''
   \<and> parse_line ''=== Run: A1 ==='' = None"
proof -
  have e: "parse_line ''Total Duration: 42.0s'' = Some (''Total Duration'', ''42.0'')"
    by (simp add: parse_line_def text_eval)
  have s: "''=== Run: A1 ==='' = [] @ ''==='' @ '' Run: A1 ===''" by simp
  have "parse_line ''=== Run: A1 ==='' = None"
    using parse_line_key_value [of "''=== Run: A1 ===''"] s by blast
  moreover have "CHR '':'' \<in> set ''=== Run: A1 ===''" by simp
  ultimately show ?thesis
    using e parse_line_key_value [of "''Total Duration: 42.0s''"] by blast
qed

section \<open>C8: the CSV loaders skip the files that fail\<close>




section \<open>C9: no artifacts at all\<close>

text \<open>
  Claim C9. When the three globs yield no file, each of the three loaders returns the
  empty table and none raises; in the summary loader, both coercion steps pass over a
  table without columns and leave it as it is.
\<close>

theorem empty_directory_loaders:
  "load_all_summaries [] = Inr empty_frame
   \<and> coerce_columns numeric_columns (DataFrame []) = Inr empty_frame
   \<and> coerce_first_kill_time empty_frame = Inr empty_frame
   \<and> load_all_captures [] = ([], empty_frame)
   \<and> load_all_snapshots [] = ([], empty_frame)
   \<and> columns empty_frame = [] \<and> rows empty_frame = []"
  by (simp add: load_all_summaries_def DataFrame_def empty_frame_def numeric_columns_def
      coerce_first_kill_time_def load_all_captures_def load_all_snapshots_def)

section \<open>C7: an unreadable summary artifact\<close>

text \<open>
  The loop of \<open>load_all_summaries\<close> has no handler: when an artifact cannot be read, no
  list of run records is returned, whatever the artifacts before and after it are.
\<close>

lemma collect_summaries_unreadable:
  "collect_summaries acc (before @ (f, Inl e) # after) \<noteq> Inr r"
proof (induction before arbitrary: acc)
  case Nil
  show ?case by simp
next
  case (Cons a before)
  obtain p c where a: "a = (p, c)" by (cases a)
  show ?case using Cons.IH by (cases c) (simp_all add: a Let_def)
qed

lemma load_all_summaries_unreadable:
  "isl (load_all_summaries (before @ (f, Inl e) # after))"
proof (cases "collect_summaries [] (before @ (f, Inl e) # after)")
  case (Inl x)
  then show ?thesis by (simp add: load_all_summaries_def)
next
  case (Inr r)
  then show ?thesis using collect_summaries_unreadable by blast
qed

text \<open>
  Claim C7 (the code at the failing input). With two summary artifacts of which the
  first cannot be opened, \<open>load_all_summaries\<close> ends with the exception and the second
  artifact is not processed, whereas \<open>load_all_captures\<close>, given the same failure,
  prints it and returns the table of the second file.
\<close>

theorem summary_read_error_aborts:
  "load_all_summaries
     [(''A1_summary.txt'', Inl (OSError ''Permission denied'')),
      (''A2_summary.txt'', Inr [''Condition: A2'', ''Capture Rate: 6.0 per minute''])]
     = Inl (OSError ''Permission denied'')
   \<and> fst (load_all_captures
     [(''A1_captures.csv'', Inl (OSError ''Permission denied'')),
      (''A2_captures.csv'', Inr example_captures)])
     = [''Error loading A1_captures.csv: Permission denied'']
   \<and> snd (load_all_captures
     [(''A1_captures.csv'', Inl (OSError ''Permission denied'')),
      (''A2_captures.csv'', Inr example_captures)])
     = concat_frames [example_captures]"
  by (simp add: load_all_summaries_def load_all_captures_def)

section \<open>C3: the delta column\<close>

lemma length_group_diff: "length (group_diff prev kvs) = length kvs"
proof (induction kvs arbitrary: prev)
  case Nil
  show ?case by simp
next
  case (Cons kv kvs)
  obtain k v where "kv = (k, v)" by (cases kv)
  then show ?case using Cons.IH by simp
qed

lemma group_cells_Cons:
  "group_cells (k # ks) c (v # vs) = (if k = c then v # group_cells ks c vs else group_cells ks c vs)"
  by (simp add: group_cells_def)

lemma group_cells_Nil: "group_cells [] c vs = []"
  by (simp add: group_cells_def)

lemma group_diff_groups:
  "c \<noteq> NaN \<Longrightarrow>
   group_cells (map fst kvs) c (group_diff prev kvs) =
     (case prev c of
        None \<Rightarrow> successive_diffs (group_cells (map fst kvs) c (map snd kvs))
      | Some p \<Rightarrow> map2 cell_sub (group_cells (map fst kvs) c (map snd kvs))
                    (p # group_cells (map fst kvs) c (map snd kvs)))"
proof (induction kvs arbitrary: prev)
  case Nil
  show ?case by (simp add: group_cells_Nil successive_diffs_def split: option.splits)
next
  case (Cons kv kvs)
  obtain k v where kv: "kv = (k, v)" by (cases kv)
  let ?g = "group_cells (map fst kvs) c (map snd kvs)"
  consider "k = NaN" | "k \<noteq> NaN" "k = c" | "k \<noteq> NaN" "k \<noteq> c" by blast
  then show ?case
  proof cases
    case 1
    with Cons.prems have "k \<noteq> c" by simp
    with 1 show ?thesis
      using Cons.IH [OF Cons.prems, of prev]
      by (simp add: kv group_cells_Cons split: option.splits)
  next
    case 2
    then have pc: "(prev(k \<mapsto> v)) c = Some v" by simp
    have ih: "group_cells (map fst kvs) c (group_diff (prev(k \<mapsto> v)) kvs) = map2 cell_sub ?g (v # ?g)"
      using Cons.IH [OF Cons.prems, of "prev(k \<mapsto> v)"] by (simp only: pc option.case)
    show ?thesis
      using 2 ih by (simp add: kv group_cells_Cons successive_diffs_def fun_upd_def split: option.splits)
  next
    case 3
    have pc: "(prev(k \<mapsto> v)) c = prev c" using 3 by simp
    have ih: "group_cells (map fst kvs) c (group_diff (prev(k \<mapsto> v)) kvs) =
      (case prev c of None \<Rightarrow> successive_diffs ?g | Some p \<Rightarrow> map2 cell_sub ?g (p # ?g))"
      using Cons.IH [OF Cons.prems, of "prev(k \<mapsto> v)"] by (simp only: pc)
    show ?thesis
      using 3 ih by (simp add: kv group_cells_Cons fun_upd_def split: option.splits)
  qed
qed

lemma group_diff_NaN_key:
  "i < length kvs \<Longrightarrow> fst (kvs ! i) = NaN \<Longrightarrow> group_diff prev kvs ! i = NaN"
proof (induction kvs arbitrary: prev i)
  case Nil
  then show ?case by simp
next
  case (Cons kv kvs)
  obtain k v where kv: "kv = (k, v)" by (cases kv)
  show ?case
  proof (cases i)
    case 0
    with Cons.prems show ?thesis by (simp add: kv)
  next
    case (Suc n)
    with Cons.prems have "n < length kvs" "fst (kvs ! n) = NaN" by simp_all
    then have "group_diff p kvs ! n = NaN" for p by (rule Cons.IH)
    then show ?thesis by (simp add: kv Suc)
  qed
qed

text \<open>
  Claim C3. For every capture table (one that has the columns \<^verbatim>\<open>condition\<close> and
  \<^verbatim>\<open>time_sec\<close>, the latter holding numbers or NaN), the delta column is computed, has
  one cell per row, and for every condition the deltas of the rows of that condition,
  in row order, are the successive differences of their times: NaN for the first row
  of the condition, and \<open>time_sec[i] - time_sec[i-1]\<close> for each later one. Rows without
  a condition get NaN. For the condition with the times 2.0, 5.0, 9.0 the deltas are
  NaN, 3.0, 4.0, in this order.
\<close>

theorem delta_per_condition:
  assumes "''condition'' \<in> set (columns df)" and "''time_sec'' \<in> set (columns df)"
    and "\<not> list_ex is_Str (map (\<lambda>r. r ''time_sec'') (rows df))"
  shows "\<exists>ds. groupby_diff df ''condition'' ''time_sec'' = Inr ds
     \<and> length ds = length (rows df)
     \<and> (\<forall>c. c \<noteq> NaN \<longrightarrow>
          group_cells (map (\<lambda>r. r ''condition'') (rows df)) c ds =
          successive_diffs (group_cells (map (\<lambda>r. r ''condition'') (rows df)) c
                             (map (\<lambda>r. r ''time_sec'') (rows df))))
     \<and> (\<forall>i < length (rows df). (rows df ! i) ''condition'' = NaN \<longrightarrow> ds ! i = NaN)"
proof -
  let ?ks = "map (\<lambda>r. r ''condition'') (rows df)"
  let ?ts = "map (\<lambda>r. r ''time_sec'') (rows df)"
  let ?ds = "group_diff Map.empty (zip ?ks ?ts)"
  have fst: "map fst (zip ?ks ?ts) = ?ks" and snd: "map snd (zip ?ks ?ts) = ?ts"
    by simp_all
  have "groupby_diff df ''condition'' ''time_sec'' = Inr ?ds"
    using assms by (simp add: groupby_diff_def getitem_def)
  moreover have "length ?ds = length (rows df)"
    by (simp add: length_group_diff)
  moreover have "group_cells ?ks c ?ds = successive_diffs (group_cells ?ks c ?ts)"
    if "c \<noteq> NaN" for c
    using group_diff_groups [OF that, of "zip ?ks ?ts" Map.empty] by (simp only: fst snd) simp
  moreover have "?ds ! i = NaN" if "i < length (rows df)" "(rows df ! i) ''condition'' = NaN" for i
    using that group_diff_NaN_key [of i "zip ?ks ?ts" Map.empty] by simp
  ultimately show ?thesis by blast
qed

theorem delta_per_condition_witness:
  "''condition'' \<in> set (columns example_captures)
   \<and> ''time_sec'' \<in> set (columns example_captures)
   \<and> \<not> list_ex is_Str (map (\<lambda>r. r ''time_sec'') (rows example_captures))
   \<and> group_cells (map (\<lambda>r. r ''condition'') (rows example_captures)) (Str ''A1'')
        (map (\<lambda>r. r ''time_sec'') (rows example_captures)) = [Num 2, Num 5, Num 9]
   \<and> (\<exists>ds. groupby_diff example_captures ''condition'' ''time_sec'' = Inr ds
         \<and> length ds = 4
         \<and> group_cells (map (\<lambda>r. r ''condition'') (rows example_captures)) (Str ''A1'') ds
             = [NaN, Num 3, Num 4])"
proof -
  have h1: "''condition'' \<in> set (columns example_captures)"
    and h2: "''time_sec'' \<in> set (columns example_captures)"
    and h3: "\<not> list_ex is_Str (map (\<lambda>r. r ''time_sec'') (rows example_captures))"
    by (simp_all add: example_captures_def mk_row_def)
  have g: "group_cells (map (\<lambda>r. r ''condition'') (rows example_captures)) (Str ''A1'')
        (map (\<lambda>r. r ''time_sec'') (rows example_captures)) = [Num 2, Num 5, Num 9]"
    by (simp add: example_captures_def mk_row_def group_cells_def)
  have s: "successive_diffs [Num 2, Num 5, Num 9] = [NaN, Num 3, Num 4]"
    by (simp add: successive_diffs_def)
  have n: "length (rows example_captures) = 4" by (simp add: example_captures_def)
  from delta_per_condition [OF h1 h2 h3] obtain ds where
    ds: "groupby_diff example_captures ''condition'' ''time_sec'' = Inr ds"
      "length ds = length (rows example_captures)"
      "\<forall>c. c \<noteq> NaN \<longrightarrow>
          group_cells (map (\<lambda>r. r ''condition'') (rows example_captures)) c ds =
          successive_diffs (group_cells (map (\<lambda>r. r ''condition'') (rows example_captures)) c
                             (map (\<lambda>r. r ''time_sec'') (rows example_captures)))"
    by blast
  from ds(3) have "group_cells (map (\<lambda>r. r ''condition'') (rows example_captures)) (Str ''A1'') ds
             = [NaN, Num 3, Num 4]"
    by (simp add: g s)
  with ds(1,2) n h1 h2 h3 g show ?thesis by simp
qed

section \<open>C10: the caller's capture table is left as it was\<close>

lemma example_plot:
  "fst (plot_confusion_effect example_polyfit 0 [example_captures]) =
     Inr \<lparr>hist_data = [Num 7, Num 4, Num 5, Num 6], scatter_x = [Num 5, Num 6],
          scatter_y = [Num 3, Num 4], trend = None\<rparr>"
  by (simp add: plot_confusion_effect_def example_captures_def mk_row_def groupby_diff_def
        getitem_def setitem_def dropna_def trend_line_def example_polyfit_def Let_def)

text \<open>
  Claim C10. \<open>plot_confusion_effect\<close> works on a copy: for every store and every
  reference, each object that was in the store before the call, the caller's capture
  table among them, is the same object value after it (same columns, so no
  \<^verbatim>\<open>time_diff\<close> column is gained, and same rows), whether the call returns or raises.
  The column \<^verbatim>\<open>time_diff\<close> is added to the new object at the end of the store.
\<close>

theorem plot_confusion_effect_frame:
  "length h \<le> length (snd (plot_confusion_effect polyfit captures h))
   \<and> (\<forall>a < length h. snd (plot_confusion_effect polyfit captures h) ! a = h ! a)
   \<and> (\<forall>p. captures < length h \<and> fst (plot_confusion_effect polyfit captures h) = Inr p \<longrightarrow>
        ''time_diff'' \<in> set (columns (snd (plot_confusion_effect polyfit captures h) ! length h)))"
  by (auto simp: plot_confusion_effect_def Let_def nth_append setitem_def
        split: sum.splits if_splits)

theorem plot_confusion_effect_frame_witness:
  "0 < length [example_captures]
   \<and> snd (plot_confusion_effect example_polyfit 0 [example_captures]) ! 0 = example_captures
   \<and> ''time_diff'' \<notin> set (columns (snd (plot_confusion_effect example_polyfit 0 [example_captures]) ! 0))
   \<and> ''time_diff'' \<in> set (columns (snd (plot_confusion_effect example_polyfit 0 [example_captures]) ! 1))"
proof -
  have "''time_diff'' \<notin> set (columns example_captures)"
    by (simp add: example_captures_def)
  then show ?thesis
    using plot_confusion_effect_frame [of "[example_captures]" example_polyfit 0] example_plot
    by simp
qed

section \<open>C5: the guard of the trend line\<close>

lemma valid_pairs:
  assumes "length d = length rs" and "B \<noteq> T"
  shows "map (\<lambda>r. (r B, r T)) (filter (\<lambda>r. r T \<noteq> NaN) (map2 (\<lambda>r v. r(T := v)) rs d)) =
         filter (\<lambda>xy. snd xy \<noteq> NaN) (zip (map (\<lambda>r. r B) rs) d)"
  using assms by (induction d rs rule: list_induct2) simp_all

lemma groupby_diff_length:
  "groupby_diff df by col = Inr d \<Longrightarrow> length d = length (rows df)"
  by (auto simp: groupby_diff_def getitem_def length_group_diff split: if_splits)

lemma map_B_setitem:
  assumes "length d = length rs" and "B \<noteq> T"
  shows "map (\<lambda>r. r B) (map2 (\<lambda>r v. r(T := v)) rs d) = map (\<lambda>r. r B) rs"
  using assms by (induction d rs rule: list_induct2) simp_all

lemma setitem_Inr:
  assumes "length vals = length (rows df)"
  shows "\<exists>df'. setitem df col vals = Inr df'
           \<and> rows df' = map2 (\<lambda>r v. r(col := v)) (rows df) vals
           \<and> set (columns df') = insert col (set (columns df))"
  using assms by (auto simp: setitem_def)

lemma dropna_Inr:
  assumes "col \<in> set (columns df)"
  shows "\<exists>valid. dropna df col = Inr valid
           \<and> rows valid = filter (\<lambda>r. r col \<noteq> NaN) (rows df)
           \<and> columns valid = columns df"
  using assms by (simp add: dropna_def)

text \<open>
  Claim C5. The trend line is fitted only on three or more rows: for every table
  \<open>valid\<close> with at most two rows, \<open>trend_line\<close> returns without a fit and without an error,
  whatever the fit would do. In \<open>plot_confusion_effect\<close>, for every capture table on which
  the delta column \<open>d\<close> is computed and which has the column \<^verbatim>\<open>boids_in_view\<close>, the
  points of the scatter plot are exactly the pairs (boids in view, delta) of the rows
  whose delta is not NaN, in row order; with three or more such pairs the fit is called
  on exactly these pairs and its result is the trend line, and with two or fewer the
  function returns its plot with no trend line.
\<close>

theorem trend_line_guard:
  "(length (rows valid) \<le> 2 \<longrightarrow> trend_line polyfit valid = Inr None)
   \<and> (captures < length h
        \<and> groupby_diff (h ! captures) ''condition'' ''time_sec'' = Inr d
        \<and> ''boids_in_view'' \<in> set (columns (h ! captures)) \<longrightarrow>
      (let pairs = filter (\<lambda>xy. snd xy \<noteq> NaN)
                     (zip (map (\<lambda>r. r ''boids_in_view'') (rows (h ! captures))) d)
       in fst (plot_confusion_effect polyfit captures h) =
          (if 3 \<le> length pairs then
             (case polyfit (map fst pairs) (map snd pairs) of
                Inl e \<Rightarrow> Inl e
              | Inr z \<Rightarrow> Inr \<lparr>hist_data = map (\<lambda>r. r ''boids_in_view'') (rows (h ! captures)),
                             scatter_x = map fst pairs, scatter_y = map snd pairs,
                             trend = Some z\<rparr>)
           else Inr \<lparr>hist_data = map (\<lambda>r. r ''boids_in_view'') (rows (h ! captures)),
                     scatter_x = map fst pairs, scatter_y = map snd pairs,
                     trend = None\<rparr>)))"
proof (intro conjI impI)
  show "trend_line polyfit valid = Inr None" if "length (rows valid) \<le> 2"
    using that by (simp add: trend_line_def)
next
  assume a: "captures < length h
        \<and> groupby_diff (h ! captures) ''condition'' ''time_sec'' = Inr d
        \<and> ''boids_in_view'' \<in> set (columns (h ! captures))"
  let ?df = "h ! captures"
  let ?B = "''boids_in_view''" and ?T = "''time_diff''"
  let ?pairs = "filter (\<lambda>xy. snd xy \<noteq> NaN) (zip (map (\<lambda>r. r ?B) (rows ?df)) d)"
  from a have lt: "captures < length h"
    and gd: "groupby_diff ?df ''condition'' ''time_sec'' = Inr d"
    and B: "?B \<in> set (columns ?df)" by simp_all
  have len: "length d = length (rows ?df)" using gd by (rule groupby_diff_length)
  have ne: "?B \<noteq> ?T" by simp
  obtain df' where set: "setitem ?df ?T d = Inr df'"
    and rows': "rows df' = map2 (\<lambda>r v. r(?T := v)) (rows ?df) d"
    and cols': "set (columns df') = insert ?T (set (columns ?df))"
    using setitem_Inr [OF len] by blast
  have Bc: "?B \<in> set (columns df')" and Tc: "?T \<in> set (columns df')"
    using B by (simp_all add: cols')
  have biv: "getitem df' ?B = Inr (map (\<lambda>r. r ?B) (rows ?df))"
    using Bc map_B_setitem [OF len ne] by (simp add: getitem_def rows')
  obtain valid where drop: "dropna df' ?T = Inr valid"
    and vrows: "rows valid = filter (\<lambda>r. r ?T \<noteq> NaN) (rows df')"
    and vcols: "columns valid = columns df'"
    using dropna_Inr [OF Tc] by blast
  have vp: "map (\<lambda>r. (r ?B, r ?T)) (rows valid) = ?pairs"
    using valid_pairs [OF len ne] by (simp add: vrows rows')
  have "map fst (map (\<lambda>r. (r ?B, r ?T)) (rows valid)) = map (\<lambda>r. r ?B) (rows valid)"
    and "map snd (map (\<lambda>r. (r ?B, r ?T)) (rows valid)) = map (\<lambda>r. r ?T) (rows valid)"
    by (simp_all add: comp_def)
  then have x: "map (\<lambda>r. r ?B) (rows valid) = map fst ?pairs"
    and y: "map (\<lambda>r. r ?T) (rows valid) = map snd ?pairs"
    unfolding vp by simp_all
  have "length (map (\<lambda>r. (r ?B, r ?T)) (rows valid)) = length (rows valid)" by simp
  then have n: "length (rows valid) = length ?pairs" unfolding vp by simp
  have gx: "getitem valid ?B = Inr (map fst ?pairs)"
    using Bc x by (simp add: getitem_def vcols)
  have gy: "getitem valid ?T = Inr (map snd ?pairs)"
    using Tc y by (simp add: getitem_def vcols)
  have tl: "trend_line polyfit valid =
      (if 3 \<le> length ?pairs then
         (case polyfit (map fst ?pairs) (map snd ?pairs) of Inl e \<Rightarrow> Inl e | Inr z \<Rightarrow> Inr (Some z))
       else Inr None)"
    unfolding trend_line_def gx gy n by (auto split: sum.splits)
  have "fst (plot_confusion_effect polyfit captures h) =
          (if 3 \<le> length ?pairs then
             (case polyfit (map fst ?pairs) (map snd ?pairs) of
                Inl e \<Rightarrow> Inl e
              | Inr z \<Rightarrow> Inr \<lparr>hist_data = map (\<lambda>r. r ?B) (rows ?df),
                             scatter_x = map fst ?pairs, scatter_y = map snd ?pairs,
                             trend = Some z\<rparr>)
           else Inr \<lparr>hist_data = map (\<lambda>r. r ?B) (rows ?df),
                     scatter_x = map fst ?pairs, scatter_y = map snd ?pairs,
                     trend = None\<rparr>)"
    by (simp add: plot_confusion_effect_def Let_def lt gd set biv drop gx gy tl split: sum.splits)
  then show "let pairs = ?pairs
       in fst (plot_confusion_effect polyfit captures h) =
          (if 3 \<le> length pairs then
             (case polyfit (map fst pairs) (map snd pairs) of
                Inl e \<Rightarrow> Inl e
              | Inr z \<Rightarrow> Inr \<lparr>hist_data = map (\<lambda>r. r ?B) (rows ?df),
                             scatter_x = map fst pairs, scatter_y = map snd pairs,
                             trend = Some z\<rparr>)
           else Inr \<lparr>hist_data = map (\<lambda>r. r ?B) (rows ?df),
                     scatter_x = map fst pairs, scatter_y = map snd pairs,
                     trend = None\<rparr>)"
    unfolding Let_def .
qed

lemmas frame_eval = example_captures_def mk_row_def groupby_diff_def getitem_def

theorem trend_line_guard_witness:
  "length (rows empty_frame) \<le> 2 \<and> trend_line example_polyfit empty_frame = Inr None
   \<and> 0 < length [example_captures]
   \<and> groupby_diff ([example_captures] ! 0) ''condition'' ''time_sec'' = Inr [NaN, NaN, Num 3, Num 4]
   \<and> ''boids_in_view'' \<in> set (columns ([example_captures] ! 0))
   \<and> fst (plot_confusion_effect example_polyfit 0 [example_captures]) =
       Inr \<lparr>hist_data = [Num 7, Num 4, Num 5, Num 6], scatter_x = [Num 5, Num 6],
            scatter_y = [Num 3, Num 4], trend = None\<rparr>
   \<and> groupby_diff ([example_captures_five] ! 0) ''condition'' ''time_sec''
       = Inr [NaN, NaN, Num 3, Num 4, Num 3]
   \<and> ''boids_in_view'' \<in> set (columns ([example_captures_five] ! 0))
   \<and> fst (plot_confusion_effect example_polyfit 0 [example_captures_five]) =
       Inr \<lparr>hist_data = [Num 7, Num 4, Num 5, Num 6, Num 3], scatter_x = [Num 5, Num 6, Num 3],
            scatter_y = [Num 3, Num 4, Num 3],
            trend = Some ([Num 5, Num 6, Num 3], [Num 3, Num 4, Num 3])\<rparr>"
proof -
  have e: "length (rows empty_frame) \<le> 2" by (simp add: empty_frame_def)
  have d4: "groupby_diff ([example_captures] ! 0) ''condition'' ''time_sec''
      = Inr [NaN, NaN, Num 3, Num 4]"
    by (simp add: frame_eval)
  have d5: "groupby_diff ([example_captures_five] ! 0) ''condition'' ''time_sec''
      = Inr [NaN, NaN, Num 3, Num 4, Num 3]"
    by (simp add: example_captures_five_def frame_eval)
  have b4: "''boids_in_view'' \<in> set (columns ([example_captures] ! 0))"
    and b5: "''boids_in_view'' \<in> set (columns ([example_captures_five] ! 0))"
    by (simp_all add: example_captures_five_def example_captures_def)
  have r4: "map (\<lambda>r. r ''boids_in_view'') (rows ([example_captures] ! 0)) = [Num 7, Num 4, Num 5, Num 6]"
    by (simp add: frame_eval)
  have r5: "map (\<lambda>r. r ''boids_in_view'') (rows ([example_captures_five] ! 0))
      = [Num 7, Num 4, Num 5, Num 6, Num 3]"
    by (simp add: example_captures_five_def frame_eval)
  have t0: "trend_line example_polyfit empty_frame = Inr None"
    using trend_line_guard [of empty_frame example_polyfit] e by blast
  have p4: "fst (plot_confusion_effect example_polyfit 0 [example_captures]) =
       Inr \<lparr>hist_data = [Num 7, Num 4, Num 5, Num 6], scatter_x = [Num 5, Num 6],
            scatter_y = [Num 3, Num 4], trend = None\<rparr>"
    using trend_line_guard [of empty_frame example_polyfit 0 "[example_captures]" "[NaN, NaN, Num 3, Num 4]"]
      d4 b4 unfolding Let_def r4 by simp
  have p5: "fst (plot_confusion_effect example_polyfit 0 [example_captures_five]) =
       Inr \<lparr>hist_data = [Num 7, Num 4, Num 5, Num 6, Num 3], scatter_x = [Num 5, Num 6, Num 3],
            scatter_y = [Num 3, Num 4, Num 3],
            trend = Some ([Num 5, Num 6, Num 3], [Num 3, Num 4, Num 3])\<rparr>"
    using trend_line_guard [of empty_frame example_polyfit 0 "[example_captures_five]"
        "[NaN, NaN, Num 3, Num 4, Num 3]"]
      d5 b5 unfolding Let_def r5 by (simp add: example_polyfit_def)
  show ?thesis using e t0 d4 b4 p4 d5 b5 p5 by blast
qed

section \<open>C1: stripping and numeric coercion of the summary values\<close>

lemma parse_line_raw_pair:
  "parse_line l = map_option (\<lambda>kw. (fst kw, stored_text (snd kw))) (raw_pair l)"
  by (simp add: parse_line_def raw_pair_def stored_text_def split: prod.splits)

lemma recorded_Nil: "recorded [] k = None"
  by (simp add: recorded_def List.map_filter_simps)

lemma recorded_Cons:
  "recorded (l # ls) k =
     (case recorded ls k of
        Some w \<Rightarrow> Some w
      | None \<Rightarrow> (case raw_pair l of None \<Rightarrow> None
                 | Some kw \<Rightarrow> if fst kw = k then Some (snd kw) else None))"
  by (auto simp: recorded_def List.map_filter_simps map_add_def split: option.splits)

lemma read_summary_lookup:
  "map_of (read_summary data lines) k =
     (case recorded lines k of Some w \<Rightarrow> Some (stored_text w) | None \<Rightarrow> map_of data k)"
proof (induction lines arbitrary: data)
  case Nil
  show ?case by (simp add: recorded_Nil)
next
  case (Cons l ls)
  show ?case
    by (auto simp: Cons.IH recorded_Cons parse_line_raw_pair update_conv' split: option.splits)
qed

lemma collect_summaries_closed:
  "collect_summaries acc files = Inr r \<Longrightarrow>
     (\<forall>f \<in> set files. \<not> isl (snd f)) \<and>
     r = acc @ run_records files"
proof (induction acc files arbitrary: r rule: collect_summaries.induct)
  case (1 summaries)
  then show ?case by (simp add: run_records_def)
next
  case (2 summaries f e fs)
  then show ?case by simp
next
  case (3 summaries f lines fs)
  then show ?case by (auto simp: Let_def has_pairs_def run_records_def split: if_splits)
qed

lemma set_union_keys: "set (union_keys acc ks) = set acc \<union> set ks"
  by (induction acc ks rule: union_keys.induct) auto

lemma map2_self: "map2 f xs (map g xs) = map (\<lambda>x. f x (g x)) xs"
  by (induction xs) simp_all

lemma to_numeric_idem: "to_numeric (to_numeric c) = to_numeric c"
  by (cases c) (simp_all split: option.splits)

lemma coerce_columns_rows:
  "\<exists>df'. coerce_columns cols df = Inr df' \<and> columns df' = columns df \<and>
     rows df' = map (\<lambda>r c. if c \<in> set cols \<and> c \<in> set (columns df) then to_numeric (r c) else r c)
                   (rows df)"
proof (induction cols arbitrary: df)
  case Nil
  show ?case by simp
next
  case (Cons col cols)
  show ?case
  proof (cases "col \<in> set (columns df)")
    case False
    have "(\<lambda>r c. if c \<in> set (col # cols) \<and> c \<in> set (columns df) then to_numeric (r c) else r c)
        = (\<lambda>r c. if c \<in> set cols \<and> c \<in> set (columns df) then to_numeric (r c) else r c)"
      using False by (intro ext) auto
    then show ?thesis using Cons.IH [of df] False by simp
  next
    case True
    let ?df1 = "\<lparr>columns = columns df, rows = map (\<lambda>r. r(col := to_numeric (r col))) (rows df)\<rparr>"
    have s: "setitem df col (map to_numeric (map (\<lambda>r. r col) (rows df))) = Inr ?df1"
      using True by (simp add: setitem_def map2_self comp_def)
    have step: "coerce_columns (col # cols) df = coerce_columns cols ?df1"
      using True s by (simp add: getitem_def)
    have f: "(\<lambda>c. if c \<in> set cols \<and> c \<in> set (columns df)
                  then to_numeric ((r(col := to_numeric (r col))) c)
                  else (r(col := to_numeric (r col))) c)
           = (\<lambda>c. if c \<in> set (col # cols) \<and> c \<in> set (columns df) then to_numeric (r c) else r c)"
      for r
      using True by (intro ext) (auto simp: to_numeric_idem)
    from Cons.IH [of ?df1] obtain df' where
      "coerce_columns cols ?df1 = Inr df'" "columns df' = columns df"
      "rows df' = map (\<lambda>r c. if c \<in> set cols \<and> c \<in> set (columns df) then to_numeric (r c) else r c)
                   (map (\<lambda>r. r(col := to_numeric (r col))) (rows df))"
      by auto
    then show ?thesis unfolding step by (simp add: comp_def f)
  qed
qed

lemma coerce_first_kill_time_rows:
  assumes "coerce_first_kill_time df = Inr df'"
  shows "columns df' = columns df \<and>
     rows df' = map (\<lambda>r c. if c = ''First Kill Time'' \<and> c \<in> set (columns df)
                          then to_numeric (case r c of Str s \<Rightarrow> Str (str_replace ''N/A'' [] s) | _ \<Rightarrow> NaN)
                          else r c) (rows df)"
proof (cases "''First Kill Time'' \<in> set (columns df)")
  case False
  then have "df' = df" using assms by (simp add: coerce_first_kill_time_def)
  moreover have "(\<lambda>r c. if c = ''First Kill Time'' \<and> c \<in> set (columns df)
                          then to_numeric (case r c of Str s \<Rightarrow> Str (str_replace ''N/A'' [] s) | _ \<Rightarrow> NaN)
                          else r c) = (\<lambda>r. r)"
    using False by (intro ext) auto
  ultimately show ?thesis by simp
next
  case True
  have "(\<lambda>r. r(''First Kill Time'' := to_numeric (case r ''First Kill Time'' of Str s \<Rightarrow> Str (str_replace ''N/A'' [] s) | _ \<Rightarrow> NaN)))
      = (\<lambda>r c. if c = ''First Kill Time'' \<and> c \<in> set (columns df)
                          then to_numeric (case r c of Str s \<Rightarrow> Str (str_replace ''N/A'' [] s) | _ \<Rightarrow> NaN)
                          else r c)"
    using True by (intro ext) auto
  then show ?thesis
    using assms True
    by (auto simp: coerce_first_kill_time_def getitem_def str_accessor_replace_def setitem_def
        map2_self comp_def split: if_splits)
qed

lemma nth_filter_take:
  assumes "i < length xs" and "P (xs ! i)"
  shows "length (filter P (take i xs)) < length (filter P xs)"
    and "filter P xs ! length (filter P (take i xs)) = xs ! i"
proof -
  have "xs = take i xs @ xs ! i # drop (Suc i) xs"
    using assms(1) by (simp add: id_take_nth_drop)
  then have "filter P xs = filter P (take i xs) @ xs ! i # filter P (drop (Suc i) xs)"
    using assms(2) by (metis filter.simps(2) filter_append)
  then show "length (filter P (take i xs)) < length (filter P xs)"
    and "filter P xs ! length (filter P (take i xs)) = xs ! i"
    by (simp_all add: nth_append)
qed

lemma key_in_concat:
  "d \<in> set ds \<Longrightarrow> (k, v) \<in> set d \<Longrightarrow> k \<in> set (concat (map (map fst) ds))"
  by force

lemma row_of_dict_no_key:
  "c \<notin> set (columns (DataFrame ds)) \<Longrightarrow> d \<in> set ds \<Longrightarrow> row_of_dict d c = NaN"
proof -
  assume c: "c \<notin> set (columns (DataFrame ds))" and d: "d \<in> set ds"
  have "map_of d c = None"
  proof (rule ccontr)
    assume "map_of d c \<noteq> None"
    then obtain v where "map_of d c = Some v" by blast
    then have "(c, v) \<in> set d" by (rule map_of_SomeD)
    with d have "c \<in> set (concat (map (map fst) ds))" by (rule key_in_concat)
    with c show False by (simp add: DataFrame_def set_union_keys del: set_concat)
  qed
  then show ?thesis by (simp add: row_of_dict_def)
qed

lemma column_has_Str:
  assumes "c \<in> set (columns (DataFrame ds))"
  shows "\<exists>d \<in> set ds. is_Str (row_of_dict d c)"
proof -
  from assms have "c \<in> set (concat (map (map fst) ds))"
    by (simp add: DataFrame_def set_union_keys del: set_concat)
  then obtain d where d: "d \<in> set ds" "c \<in> fst ` set d" by auto
  then have "map_of d c \<noteq> None" by (simp add: map_of_eq_None_iff)
  then have "is_Str (row_of_dict d c)" by (auto simp: row_of_dict_def)
  with d(1) show ?thesis by blast
qed

lemma coerce_cell_NaN: "coerce_cell c NaN = NaN"
  by (simp add: coerce_cell_def)

lemma coerced_rows:
  fixes ds :: "(string \<times> string) list list"
  defines "cols \<equiv> columns (DataFrame ds)"
  shows "map (\<lambda>r c. if c = ''First Kill Time'' \<and> c \<in> set cols
                     then to_numeric (case r c of Str s \<Rightarrow> Str (str_replace ''N/A'' [] s) | _ \<Rightarrow> NaN)
                     else r c)
           (map (\<lambda>r c. if c \<in> set numeric_columns \<and> c \<in> set cols then to_numeric (r c) else r c)
              (map row_of_dict ds))
         = map (\<lambda>d c. coerce_cell c (row_of_dict d c)) ds"
proof -
  have "(if c = ''First Kill Time'' \<and> c \<in> set cols
          then to_numeric (case (if c \<in> set numeric_columns \<and> c \<in> set cols
                                 then to_numeric (row_of_dict d c) else row_of_dict d c) of
                             Str s \<Rightarrow> Str (str_replace ''N/A'' [] s) | _ \<Rightarrow> NaN)
          else (if c \<in> set numeric_columns \<and> c \<in> set cols
                then to_numeric (row_of_dict d c) else row_of_dict d c))
        = coerce_cell c (row_of_dict d c)" if d: "d \<in> set ds" for d c
  proof (cases "c \<in> set cols")
    case True
    then show ?thesis by (auto simp: coerce_cell_def numeric_columns_def)
  next
    case False
    then have "row_of_dict d c = NaN"
      using d row_of_dict_no_key unfolding cols_def by blast
    then show ?thesis using False by (simp add: coerce_cell_NaN)
  qed
  then show ?thesis by (simp add: comp_def)
qed

lemma load_all_summaries_closed:
  assumes "load_all_summaries files = Inr df"
  shows "\<forall>f \<in> set files. \<not> isl (snd f)"
    and "columns df = columns (DataFrame (run_records files))"
    and "rows df = map (\<lambda>d c. coerce_cell c (row_of_dict d c)) (run_records files)"
proof -
  obtain summaries where c: "collect_summaries [] files = Inr summaries"
    using assms by (auto simp: load_all_summaries_def split: sum.splits)
  from collect_summaries_closed [OF c]
  have summ: "summaries = run_records files" and rd: "\<forall>f \<in> set files. \<not> isl (snd f)"
    by simp_all
  show "\<forall>f \<in> set files. \<not> isl (snd f)" by (rule rd)
  obtain df1 where d1: "coerce_columns numeric_columns (DataFrame summaries) = Inr df1"
    and c1: "columns df1 = columns (DataFrame summaries)"
    and r1: "rows df1 = map (\<lambda>r c. if c \<in> set numeric_columns \<and> c \<in> set (columns (DataFrame summaries))
                                   then to_numeric (r c) else r c) (rows (DataFrame summaries))"
    using coerce_columns_rows by blast
  have "coerce_first_kill_time df1 = Inr df"
    using assms c d1 by (simp add: load_all_summaries_def)
  from coerce_first_kill_time_rows [OF this]
  have c2: "columns df = columns df1"
    and r2: "rows df = map (\<lambda>r c. if c = ''First Kill Time'' \<and> c \<in> set (columns df1)
                          then to_numeric (case r c of Str s \<Rightarrow> Str (str_replace ''N/A'' [] s) | _ \<Rightarrow> NaN)
                          else r c) (rows df1)"
    by simp_all
  show "columns df = columns (DataFrame (run_records files))"
    by (simp add: c2 c1 summ)
  have rows0: "rows (DataFrame summaries) = map row_of_dict summaries"
    by (simp add: DataFrame_def)
  show "rows df = map (\<lambda>d c. coerce_cell c (row_of_dict d c)) (run_records files)"
  proof -
    have "rows (DataFrame (run_records files)) = map row_of_dict (run_records files)"
      by (simp add: DataFrame_def)
    then show ?thesis
      unfolding r2 r1 c1 summ by (simp only: coerced_rows)
  qed
qed

lemma collect_summaries_readable:
  "\<forall>f \<in> set files. \<not> isl (snd f) \<Longrightarrow> \<exists>r. collect_summaries acc files = Inr r"
  by (induction acc files rule: collect_summaries.induct) (simp_all add: Let_def)

lemma load_all_summaries_total:
  assumes "\<forall>f \<in> set files. \<not> isl (snd f)"
  shows "\<exists>df. load_all_summaries files = Inr df"
proof -
  obtain ds where c: "collect_summaries [] files = Inr ds"
    using collect_summaries_readable [OF assms] by blast
  obtain df1 where d1: "coerce_columns numeric_columns (DataFrame ds) = Inr df1"
    and c1: "columns df1 = columns (DataFrame ds)"
    and r1: "rows df1 = map (\<lambda>r c. if c \<in> set numeric_columns \<and> c \<in> set (columns (DataFrame ds))
                                   then to_numeric (r c) else r c) (rows (DataFrame ds))"
    using coerce_columns_rows by blast
  have "\<exists>df. coerce_first_kill_time df1 = Inr df"
  proof (cases "''First Kill Time'' \<in> set (columns df1)")
    case False
    then show ?thesis by (simp add: coerce_first_kill_time_def)
  next
    case True
    then obtain d where d: "d \<in> set ds" "is_Str (row_of_dict d ''First Kill Time'')"
      using column_has_Str unfolding c1 by blast
    have "''First Kill Time'' \<notin> set numeric_columns" by (simp add: numeric_columns_def)
    then have "list_ex is_Str (map (\<lambda>r. r ''First Kill Time'') (rows df1))"
      using d by (auto simp: r1 DataFrame_def list_ex_iff)
    then show ?thesis
      using True
      by (simp add: coerce_first_kill_time_def getitem_def str_accessor_replace_def setitem_def)
  qed
  then show ?thesis using c d1 by (simp add: load_all_summaries_def)
qed

lemma loaded_cell:
  assumes load: "load_all_summaries files = Inr df"
    and i: "i < length files" and lines: "snd (files ! i) = Inr lines"
    and rec: "recorded lines k = Some w"
  shows "length (filter has_pairs (take i files)) < length (rows df)"
    and "(rows df ! length (filter has_pairs (take i files))) k = coerce_cell k (Str (stored_text w))"
proof -
  let ?j = "length (filter has_pairs (take i files))"
  let ?dict = "\<lambda>f. read_summary [] (projr (snd f))"
  have rows: "rows df = map (\<lambda>d c. coerce_cell c (row_of_dict d c)) (run_records files)"
    using load by (rule load_all_summaries_closed)
  have look: "map_of (?dict (files ! i)) k = Some (stored_text w)"
    using read_summary_lookup [of "[]" lines k] rec lines by simp
  then have "?dict (files ! i) \<noteq> []" by auto
  then have hp: "has_pairs (files ! i)" using lines by (simp add: has_pairs_def)
  have jlt: "?j < length (filter has_pairs files)"
    and jth: "filter has_pairs files ! ?j = files ! i"
    using nth_filter_take [OF i, of has_pairs] hp by simp_all
  show "?j < length (rows df)" using jlt by (simp add: rows run_records_def)
  show "(rows df ! ?j) k = coerce_cell k (Str (stored_text w))"
    using jlt jth look by (simp add: rows run_records_def row_of_dict_def)
qed

lemmas num_eval = parse_number_def parse_unsigned_def isdigit_def digits_value_def

text \<open>
  Claim C1. For every list of summary artifacts that the loader reads, and every
  artifact of the list: in the row of the table that comes from this artifact (the rows
  are those of the artifacts with at least one pair, in order), a Total Duration
  recorded as \<^verbatim>\<open>42.0s\<close> is the number 42, a Capture Rate recorded as \<^verbatim>\<open>3.5 per minute\<close>
  is the number 3.5, and a First Kill Time recorded as \<^verbatim>\<open>N/A\<close> is NaN, the
  missing-value marker: not a number and not a string.
\<close>

theorem summary_numeric_coercion:
  assumes "load_all_summaries files = Inr df"
    and "i < length files" and "snd (files ! i) = Inr lines"
  shows "let j = length (filter has_pairs (take i files)) in
     (recorded lines ''Total Duration'' = Some ''42.0s'' \<longrightarrow>
        j < length (rows df) \<and> (rows df ! j) ''Total Duration'' = Num 42)
   \<and> (recorded lines ''Capture Rate'' = Some ''3.5 per minute'' \<longrightarrow>
        j < length (rows df) \<and> (rows df ! j) ''Capture Rate'' = Num (7 / 2))
   \<and> (recorded lines ''First Kill Time'' = Some ''N/A'' \<longrightarrow>
        j < length (rows df) \<and> (rows df ! j) ''First Kill Time'' = NaN)"
proof -
  have a: "stored_text ''42.0s'' = ''42.0''"
    and b: "stored_text ''3.5 per minute'' = ''3.5''"
    and c: "str_replace ''N/A'' [] (stored_text ''N/A'') = []"
    by (simp_all add: stored_text_def str_replace_eval)
  show ?thesis
    unfolding Let_def
    using loaded_cell [OF assms, of "''Total Duration''" "''42.0s''"]
      loaded_cell [OF assms, of "''Capture Rate''" "''3.5 per minute''"]
      loaded_cell [OF assms, of "''First Kill Time''" "''N/A''"]
    by (simp add: a b c coerce_cell_def numeric_columns_def num_eval)
qed

lemmas recorded_eval = recorded_def List.map_filter_simps raw_pair_def text_eval

theorem summary_numeric_coercion_witness:
  "\<exists>df. load_all_summaries example_files = Inr df
     \<and> 1 < length example_files
     \<and> snd (example_files ! 1) = Inr example_summary_lines
     \<and> recorded example_summary_lines ''Total Duration'' = Some ''42.0s''
     \<and> recorded example_summary_lines ''Capture Rate'' = Some ''3.5 per minute''
     \<and> recorded example_summary_lines ''First Kill Time'' = Some ''N/A''
     \<and> length (filter has_pairs (take 1 example_files)) = 0
     \<and> (rows df ! 0) ''Total Duration'' = Num 42
     \<and> (rows df ! 0) ''Capture Rate'' = Num (7 / 2)
     \<and> (rows df ! 0) ''First Kill Time'' = NaN"
proof -
  have "\<forall>f \<in> set example_files. \<not> isl (snd f)" by (simp add: example_files_def)
  then obtain df where df: "load_all_summaries example_files = Inr df"
    using load_all_summaries_total by blast
  have i: "1 < length example_files"
    and l: "snd (example_files ! 1) = Inr example_summary_lines"
    by (simp_all add: example_files_def)
  have r1: "recorded example_summary_lines ''Total Duration'' = Some ''42.0s''"
    by (simp add: example_summary_lines_def recorded_eval)
  have r2: "recorded example_summary_lines ''Capture Rate'' = Some ''3.5 per minute''"
    by (simp add: example_summary_lines_def recorded_eval)
  have r3: "recorded example_summary_lines ''First Kill Time'' = Some ''N/A''"
    by (simp add: example_summary_lines_def recorded_eval)
  have j: "length (filter has_pairs (take 1 example_files)) = 0"
    by (simp add: example_files_def has_pairs_def parse_line_def)
  show ?thesis
    using summary_numeric_coercion [OF df i l] df i l r1 r2 r3 j
    by (auto simp: Let_def)
qed

section \<open>C6: the results table of the report\<close>

lemma sort_values_labels:
  assumes "by \<in> set (columns df)"
    and "\<forall>r \<in> set (rows df). r by \<noteq> NaN \<longrightarrow> is_Str (r by)"
  shows "\<exists>df'. sort_values df by = Inr df' \<and> columns df' = columns df \<and>
     rows df' = sort_key (\<lambda>r. cell_str (r by)) (filter (\<lambda>r. r by \<noteq> NaN) (rows df))
                @ filter (\<lambda>r. r by = NaN) (rows df)"
  using assms by (simp add: sort_values_def Let_def list_all_iff)

lemma sort_values_mset:
  assumes "sort_values df by = Inr df'"
  shows "mset (rows df') = mset (rows df)" and "columns df' = columns df"
proof -
  have p: "mset (filter (\<lambda>r. r by \<noteq> NaN) (rows df)) + mset (filter (\<lambda>r. r by = NaN) (rows df))
      = mset (rows df)"
    by (induction "rows df") simp_all
  show "mset (rows df') = mset (rows df)"
    using assms p by (auto simp: sort_values_def Let_def split: if_splits)
  show "columns df' = columns df"
    using assms by (auto simp: sort_values_def Let_def split: if_splits)
qed

lemma write_rows_lines:
  assumes "set report_columns \<subseteq> set cols"
    and "\<forall>r \<in> set rs. \<not> is_Str (r ''Initial Boid Count'') \<and> \<not> is_Str (r ''First Kill Time'')
           \<and> \<not> is_Str (r ''Capture Rate'') \<and> \<not> is_Str (r ''Total Duration'')"
  shows "write_rows cols rs = Inr (map line_of_row rs)"
  using assms(2)
proof (induction rs)
  case Nil
  show ?case by simp
next
  case (Cons r rs)
  have f: "format_f (Inr x) = Inr x" if "\<not> is_Str x" for x
    using that by (cases x) (simp_all add: format_f_def)
  have "write_row cols r = Inr (line_of_row r)"
    using assms(1) Cons.prems
    by (simp add: write_row_def row_get_def report_columns_def f line_of_row_def)
  then show ?case using Cons by simp
qed

lemma to_numeric_not_Str: "\<not> is_Str (to_numeric x)"
  by (cases x) (simp_all split: option.splits)

lemma row_of_record_types:
  "\<not> is_Str (row_of_record d ''Initial Boid Count'')"
  "\<not> is_Str (row_of_record d ''First Kill Time'')"
  "\<not> is_Str (row_of_record d ''Capture Rate'')"
  "\<not> is_Str (row_of_record d ''Total Duration'')"
  "row_of_record d ''Condition'' \<noteq> NaN \<longrightarrow> is_Str (row_of_record d ''Condition'')"
  by (simp_all add: row_of_record_def coerce_cell_def numeric_columns_def to_numeric_not_Str
      row_of_dict_def split: option.splits)

lemma sorted_wrt_trivial: "sorted_wrt (\<lambda>a b. True) xs"
  by (induction xs) simp_all

lemma sorted_labels:
  fixes rs :: "(string \<Rightarrow> cell) list"
  shows "sorted_wrt (\<lambda>a b. label_le (a c) (b c))
     (sort_key (\<lambda>r. cell_str (r c)) (filter (\<lambda>r. r c \<noteq> NaN) rs) @ filter (\<lambda>r. r c = NaN) rs)"
proof -
  let ?p = "filter (\<lambda>r. r c \<noteq> NaN) rs"
  let ?s = "sort_key (\<lambda>r. cell_str (r c)) ?p"
  let ?m = "filter (\<lambda>r. r c = NaN) rs"
  have "sorted (map (\<lambda>r. cell_str (r c)) ?s)"
    by (rule sorted_sort_key)
  then have le: "sorted_wrt (\<lambda>a b. cell_str (a c) \<le> cell_str (b c)) ?s"
    by (simp only: sorted_wrt_map)
  have ne: "r c \<noteq> NaN" if "r \<in> set ?s" for r
    using that by simp
  have 1: "sorted_wrt (\<lambda>a b. label_le (a c) (b c)) ?s"
  proof (rule sorted_wrt_mono_rel [OF _ le])
    fix x y
    assume "x \<in> set ?s" and "cell_str (x c) \<le> cell_str (y c)"
    then show "label_le (x c) (y c)"
      using ne [of x] by (simp only: label_le_def) blast
  qed
  have 2: "sorted_wrt (\<lambda>a b. label_le (a c) (b c)) ?m"
  proof (rule sorted_wrt_mono_rel [of _ "\<lambda>a b. True"])
    fix x y
    assume "y \<in> set ?m"
    then have "y c = NaN" by simp
    then show "label_le (x c) (y c)" by (simp add: label_le_def)
  next
    show "sorted_wrt (\<lambda>a b. True) ?m" by (rule sorted_wrt_trivial)
  qed
  have 3: "label_le (x c) (y c)" if "y \<in> set ?m" for x y
  proof -
    from that have "y c = NaN" by simp
    then show ?thesis by (simp add: label_le_def)
  qed
  show ?thesis
    unfolding sorted_wrt_append using 1 2 3 by blast
qed

text \<open>
  Claim C6. For every list of summary artifacts that the loader reads and whose table
  has the five columns of the results table: the report table is written, it has one
  line per run record (its lines, as a multiset, are the lines of the run records of
  the artifacts, so each record appears exactly once), and its lines are in ascending
  order of the condition label, the records without a label last.
\<close>

theorem report_table_sorted_permutation:
  assumes "load_all_summaries files = Inr summaries"
    and "set report_columns \<subseteq> set (columns summaries)"
  shows "\<exists>t. report_table summaries = Inr t
     \<and> rows summaries = map row_of_record (run_records files)
     \<and> mset t = image_mset (\<lambda>d. line_of_row (row_of_record d)) (mset (run_records files))
     \<and> sorted_wrt (\<lambda>a b. label_le (line_condition a) (line_condition b)) t"
proof -
  have rows: "rows summaries = map row_of_record (run_records files)"
    using load_all_summaries_closed(3) [OF assms(1)] by (simp add: row_of_record_def [abs_def])
  have C: "''Condition'' \<in> set (columns summaries)"
    using assms(2) by (simp add: report_columns_def)
  have lab: "\<forall>r \<in> set (rows summaries). r ''Condition'' \<noteq> NaN \<longrightarrow> is_Str (r ''Condition'')"
    using row_of_record_types(5) by (auto simp: rows)
  from sort_values_labels [OF C lab] obtain df where
    sv: "sort_values summaries ''Condition'' = Inr df" and cols: "columns df = columns summaries"
    and srows: "rows df = sort_key (\<lambda>r. cell_str (r ''Condition''))
                  (filter (\<lambda>r. r ''Condition'' \<noteq> NaN) (rows summaries))
                @ filter (\<lambda>r. r ''Condition'' = NaN) (rows summaries)"
    by blast
  have ms: "mset (rows df) = mset (rows summaries)" using sv by (rule sort_values_mset)
  then have "set (rows df) = set (rows summaries)" by (rule mset_eq_setD)
  then have num: "\<forall>r \<in> set (rows df). \<not> is_Str (r ''Initial Boid Count'')
      \<and> \<not> is_Str (r ''First Kill Time'') \<and> \<not> is_Str (r ''Capture Rate'')
      \<and> \<not> is_Str (r ''Total Duration'')"
    using row_of_record_types(1-4) by (auto simp: rows)
  have t: "report_table summaries = Inr (map line_of_row (rows df))"
    using write_rows_lines [OF _ num, of "columns df"] assms(2)
    by (simp add: report_table_def sv cols)
  have "mset (map line_of_row (rows df)) = image_mset line_of_row (mset (rows summaries))"
    by (simp add: ms [symmetric])
  then have m: "mset (map line_of_row (rows df))
      = image_mset (\<lambda>d. line_of_row (row_of_record d)) (mset (run_records files))"
    by (simp add: rows multiset.map_comp comp_def)
  have "sorted_wrt (\<lambda>a b. label_le (a ''Condition'') (b ''Condition'')) (rows df)"
    unfolding srows by (rule sorted_labels)
  then have s: "sorted_wrt (\<lambda>a b. label_le (line_condition a) (line_condition b))
      (map line_of_row (rows df))"
    by (simp add: sorted_wrt_map line_of_row_def)
  show ?thesis
  proof (intro exI conjI)
    show "report_table summaries = Inr (map line_of_row (rows df))" by (rule t)
    show "rows summaries = map row_of_record (run_records files)" by (rule rows)
    show "mset (map line_of_row (rows df))
      = image_mset (\<lambda>d. line_of_row (row_of_record d)) (mset (run_records files))" by (rule m)
    show "sorted_wrt (\<lambda>a b. label_le (line_condition a) (line_condition b))
      (map line_of_row (rows df))" by (rule s)
  qed
qed

lemmas parse_eval = parse_line_def text_eval

lemma example_run_records:
  "run_records example_run_files =
     [[(''Condition'', ''B1''), (''Initial Boid Count'', ''30''), (''First Kill Time'', ''4.5''),
       (''Capture Rate'', ''2.0''), (''Total Duration'', ''60.0'')],
      [(''Condition'', ''A1''), (''Initial Boid Count'', ''30''), (''First Kill Time'', ''N/A''),
       (''Capture Rate'', ''3.5''), (''Total Duration'', ''42.0'')]]"
  by (simp add: run_records_def example_run_files_def has_pairs_def example_lines_b1_def
      example_summary_lines_def parse_eval)


theorem report_table_sorted_permutation_witness:
  "\<exists>summaries. load_all_summaries example_run_files = Inr summaries
     \<and> set report_columns \<subseteq> set (columns summaries)
     \<and> (\<exists>t. report_table summaries = Inr t
          \<and> mset t = image_mset (\<lambda>d. line_of_row (row_of_record d))
                       (mset (run_records example_run_files))
          \<and> sorted_wrt (\<lambda>a b. label_le (line_condition a) (line_condition b)) t)
     \<and> report_table summaries =
         Inr [\<lparr>line_condition = Str ''A1'', line_count = Num 30, line_first_kill = NaN,
               line_rate = Num (7 / 2), line_duration = Num 42\<rparr>,
              \<lparr>line_condition = Str ''B1'', line_count = Num 30, line_first_kill = Num (9 / 2),
               line_rate = Num 2, line_duration = Num 60\<rparr>]"
proof -
  have "\<forall>f \<in> set example_run_files. \<not> isl (snd f)" by (simp add: example_run_files_def)
  then obtain summaries where l: "load_all_summaries example_run_files = Inr summaries"
    using load_all_summaries_total by blast
  have cols: "columns summaries = report_columns"
    using load_all_summaries_closed(2) [OF l]
    by (simp add: example_run_records DataFrame_def report_columns_def)
  then have sub: "set report_columns \<subseteq> set (columns summaries)" by simp
  from report_table_sorted_permutation [OF l sub] obtain t where
    t: "report_table summaries = Inr t"
    and rows: "rows summaries = map row_of_record (run_records example_run_files)"
    and m: "mset t = image_mset (\<lambda>d. line_of_row (row_of_record d))
                       (mset (run_records example_run_files))"
    and s: "sorted_wrt (\<lambda>a b. label_le (line_condition a) (line_condition b)) t"
    by blast
  have e: "report_table summaries =
         Inr [\<lparr>line_condition = Str ''A1'', line_count = Num 30, line_first_kill = NaN,
               line_rate = Num (7 / 2), line_duration = Num 42\<rparr>,
              \<lparr>line_condition = Str ''B1'', line_count = Num 30, line_first_kill = Num (9 / 2),
               line_rate = Num 2, line_duration = Num 60\<rparr>]"
    by (simp add: report_table_def sort_values_def cols rows example_run_records
        report_columns_def row_of_record_def row_of_dict_def coerce_cell_def numeric_columns_def
        write_row_def row_get_def format_f_def num_eval str_replace_eval)
  show ?thesis using l sub t m s e by blast
qed

section \<open>C4: the most and the least efficient condition\<close>








end
